theory Spec2Isabelle
  imports Complex_Main
begin

section \<open>Arint Screenshot: capture orchestrator, region selector, editor history\<close>

text \<open>
  The development embeds three scripts of the extension:
  \<^item> \<^verbatim>\<open>src/arint-background.js\<close>: the pending-capture slot, the message handler,
    \<^verbatim>\<open>captureFullPage\<close> and \<^verbatim>\<open>stitchImages\<close>;
  \<^item> the content script (region selector): \<^verbatim>\<open>onMouseDown\<close>, \<^verbatim>\<open>onMouseUp\<close>,
    \<^verbatim>\<open>onKeyDown\<close>;
  \<^item> the editor: \<^verbatim>\<open>saveState\<close>, \<^verbatim>\<open>undo\<close>, \<^verbatim>\<open>redo\<close>, \<^verbatim>\<open>restoreState\<close>.

  Numbers. \<^verbatim>\<open>scrollHeight\<close>, \<^verbatim>\<open>innerHeight\<close>, \<^verbatim>\<open>innerWidth\<close>, \<^verbatim>\<open>clientX\<close> and canvas
  sizes are integers of the DOM; they are modelled as \<open>nat\<close> or \<open>int\<close>, and every
  subtraction of the source that can go below zero is computed in \<open>int\<close>. The device
  pixel ratio is a double. Where a property is about exact pixels the ratio is a
  natural number (1, 2, 3, ...), since a fractional ratio makes \<^verbatim>\<open>drawImage\<close> resample
  between device pixels; where it is about sizes the ratio is a rational and the
  rounding of each double operation and the browser's resampling are parameters.
\<close>

subsection \<open>Errors of the platform calls\<close>

datatype error =
    IndexSizeError    \<comment> \<open>\<^verbatim>\<open>getImageData\<close> with a zero width or height\<close>
  | TypeError         \<comment> \<open>property read on \<^verbatim>\<open>undefined\<close>\<close>
  | CaptureError      \<comment> \<open>the tab capture or a script injection was rejected\<close>

subsection \<open>Region selector (content script)\<close>

record SelectionRect =
  sel_x :: int
  sel_y :: int
  sel_width :: int
  sel_height :: int
  sel_devicePixelRatio :: nat

datatype message =
    CAPTURE_REQUEST string
  | SELECTION_COMPLETE SelectionRect
  | SELECTION_CANCELLED
  | GET_PENDING_CAPTURE
  | PAGE_DIMENSIONS

text \<open>What a handler of the content script does besides updating its variables.\<close>

datatype effect =
    SendMessage message          \<comment> \<open>\<^verbatim>\<open>browser.runtime.sendMessage\<close>\<close>
  | HideOverlay                  \<comment> \<open>the three \<^verbatim>\<open>style.display = 'none'\<close>\<close>
  | RemoveOverlay                \<comment> \<open>the DOM part of \<^verbatim>\<open>cleanup()\<close>\<close>
  | SetTimeout nat "effect list" \<comment> \<open>\<^verbatim>\<open>setTimeout(callback, ms)\<close>\<close>

record selector =
  selectionActive :: bool   \<comment> \<open>\<^verbatim>\<open>window.__arintSelectionActive\<close>\<close>
  isSelecting :: bool
  startX :: int
  startY :: int

text \<open>\<^verbatim>\<open>window.devicePixelRatio || 1\<close>: zero is falsy.\<close>

definition dpr_or_1 :: "nat \<Rightarrow> nat" where
  "dpr_or_1 r = (if r = 0 then 1 else r)"

definition cleanup :: "selector \<Rightarrow> selector" where
  "cleanup s = s\<lparr>selectionActive := False\<rparr>"

definition onMouseDown :: "int \<times> int \<Rightarrow> selector \<Rightarrow> selector" where
  "onMouseDown e s = s\<lparr>isSelecting := True, startX := fst e, startY := snd e\<rparr>"

text \<open>
  \<^verbatim>\<open>onMouseUp(e)\<close>; \<open>e\<close> is \<open>(clientX, clientY)\<close>, \<open>r\<close> is \<^verbatim>\<open>window.devicePixelRatio\<close>.
  In the cancelling branch \<^verbatim>\<open>cleanup()\<close> runs at once; in the accepting branch it runs
  inside the 50 ms timer, after the message.
\<close>

definition onMouseUp :: "nat \<Rightarrow> int \<times> int \<Rightarrow> selector \<Rightarrow> selector \<times> effect list" where
  "onMouseUp r e s =
     (if \<not> isSelecting s then (s, [])
      else
        let s1 = s\<lparr>isSelecting := False\<rparr>;
            currentX = fst e;
            currentY = snd e;
            x = min (startX s1) currentX;
            y = min (startY s1) currentY;
            width = \<bar>currentX - startX s1\<bar>;
            height = \<bar>currentY - startY s1\<bar>
        in if width < 10 \<or> height < 10
           then (cleanup s1, [RemoveOverlay, SendMessage SELECTION_CANCELLED])
           else
             let selection = \<lparr>sel_x = x, sel_y = y, sel_width = width, sel_height = height,
                               sel_devicePixelRatio = dpr_or_1 r\<rparr>
             in (s1, [HideOverlay,
                      SetTimeout 50 [SendMessage (SELECTION_COMPLETE selection), RemoveOverlay]]))"

definition onKeyDown :: "string \<Rightarrow> selector \<Rightarrow> selector \<times> effect list" where
  "onKeyDown key s =
     (if key = ''Escape'' then (cleanup s, [RemoveOverlay, SendMessage SELECTION_CANCELLED])
      else (s, []))"

text \<open>Every message an effect sends, those sent from a timer included.\<close>

fun sent :: "effect \<Rightarrow> message list" where
  "sent (SendMessage m) = [m]"
| "sent HideOverlay = []"
| "sent RemoveOverlay = []"
| "sent (SetTimeout ms es) = concat (map sent es)"

definition emitted :: "effect list \<Rightarrow> message list" where
  "emitted es = concat (map sent es)"

subsection \<open>Pending capture slot (background worker)\<close>

text \<open>
  \<^verbatim>\<open>let pendingCapture = null\<close> is the only variable of the worker; \<open>None\<close> is
  \<^verbatim>\<open>null\<close>. The image type is a parameter here.
\<close>

record 'i background =
  pendingCapture :: "'i option"

datatype 'i response =
    ImageDataResponse "'i option"   \<comment> \<open>\<^verbatim>\<open>{ imageData: pendingCapture }\<close>\<close>
  | ReceivedResponse                \<comment> \<open>\<^verbatim>\<open>{ received: true }\<close>\<close>

definition initial_background :: "'i background" where
  "initial_background = \<lparr>pendingCapture = None\<rparr>"

text \<open>
  \<^verbatim>\<open>openEditor(imageData)\<close>: the assignment to the slot; the new tab it then opens is
  outside the state.
\<close>

definition openEditor :: "'i \<Rightarrow> 'i background \<Rightarrow> 'i background" where
  "openEditor imageData s = s\<lparr>pendingCapture := Some imageData\<rparr>"

text \<open>
  The synchronous part of the \<^verbatim>\<open>onMessage\<close> listener: the response it sends before
  returning, if any, and the state it leaves. \<^verbatim>\<open>CAPTURE_REQUEST\<close> and
  \<^verbatim>\<open>SELECTION_COMPLETE\<close> start an asynchronous capture, which reaches the slot only
  through a later \<open>openEditor\<close>.
\<close>

fun onMessage :: "message \<Rightarrow> 'i background \<Rightarrow> 'i response option \<times> 'i background" where
  "onMessage (CAPTURE_REQUEST action) s = (None, s)"
| "onMessage (SELECTION_COMPLETE selection) s = (None, s)"
| "onMessage SELECTION_CANCELLED s = (None, s)"
| "onMessage GET_PENDING_CAPTURE s =
     (Some (ImageDataResponse (pendingCapture s)), s\<lparr>pendingCapture := None\<rparr>)"
| "onMessage PAGE_DIMENSIONS s = (Some ReceivedResponse, s)"

subsection \<open>Editor history\<close>

text \<open>
  The pixel buffer of the main canvas is an abstract value \<open>'b\<close> (the RGBA bytes that
  \<^verbatim>\<open>getImageData\<close> copies out and \<^verbatim>\<open>putImageData\<close> copies back).
\<close>

record 'b history_entry =
  entry_imageData :: 'b
  entry_width :: nat
  entry_height :: nat

record 'b editor =
  canvas_width :: nat
  canvas_height :: nat
  canvas_pixels :: 'b
  overlay_width :: nat
  overlay_height :: nat
  history :: "'b history_entry list"
  historyIndex :: int

text \<open>\<^verbatim>\<open>this.maxHistory = 20\<close>, assigned in the constructor and nowhere else.\<close>

definition maxHistory :: nat where
  "maxHistory = 20"

text \<open>The constructor's history fields, on a canvas \<open>w \<times> h\<close> holding \<open>b\<close>.\<close>

definition new_editor :: "nat \<Rightarrow> nat \<Rightarrow> 'b \<Rightarrow> 'b editor" where
  "new_editor w h b =
     \<lparr>canvas_width = w, canvas_height = h, canvas_pixels = b,
      overlay_width = w, overlay_height = h, history = [], historyIndex = - 1\<rparr>"

text \<open>\<^verbatim>\<open>xs.slice(0, end)\<close>: a negative \<open>end\<close> counts from the end of the array.\<close>

definition slice0 :: "'a list \<Rightarrow> int \<Rightarrow> 'a list" where
  "slice0 xs end = (if end < 0 then take (nat (int (length xs) + end)) xs else take (nat end) xs)"

text \<open>\<^verbatim>\<open>xs[i]\<close>: \<open>None\<close> is \<^verbatim>\<open>undefined\<close>.\<close>

definition index :: "'a list \<Rightarrow> int \<Rightarrow> 'a option" where
  "index xs i = (if 0 \<le> i \<and> i < int (length xs) then Some (xs ! nat i) else None)"

text \<open>
  \<^verbatim>\<open>saveState()\<close>. The redo entries are removed first; \<^verbatim>\<open>getImageData\<close> throws
  \<^verbatim>\<open>IndexSizeError\<close> on a canvas with a zero side, before anything is pushed.
\<close>

definition saveState :: "'b editor \<Rightarrow> error + 'b editor" where
  "saveState e =
     (let e1 = (if historyIndex e < int (length (history e)) - 1
                then e\<lparr>history := slice0 (history e) (historyIndex e + 1)\<rparr>
                else e)
      in if canvas_width e1 = 0 \<or> canvas_height e1 = 0 then Inl IndexSizeError
         else
           let e2 = e1\<lparr>history := history e1 @
                          [\<lparr>entry_imageData = canvas_pixels e1,
                            entry_width = canvas_width e1,
                            entry_height = canvas_height e1\<rparr>]\<rparr>
           in if length (history e2) > maxHistory
              then Inr (e2\<lparr>history := tl (history e2)\<rparr>)
              else Inr (e2\<lparr>historyIndex := historyIndex e2 + 1\<rparr>))"

text \<open>
  \<^verbatim>\<open>restoreState(state)\<close>: both canvases take the entry's size (which clears them) and
  the entry's pixels are put back at the origin.
\<close>

definition restoreState :: "'b history_entry \<Rightarrow> 'b editor \<Rightarrow> 'b editor" where
  "restoreState state e =
     e\<lparr>canvas_width := entry_width state, canvas_height := entry_height state,
       overlay_width := entry_width state, overlay_height := entry_height state,
       canvas_pixels := entry_imageData state\<rparr>"

definition undo :: "'b editor \<Rightarrow> error + 'b editor" where
  "undo e =
     (if historyIndex e > 0 then
        let e1 = e\<lparr>historyIndex := historyIndex e - 1\<rparr>
        in case index (history e1) (historyIndex e1) of
             None \<Rightarrow> Inl TypeError
           | Some state \<Rightarrow> Inr (restoreState state e1)
      else Inr e)"

definition redo :: "'b editor \<Rightarrow> error + 'b editor" where
  "redo e =
     (if historyIndex e < int (length (history e)) - 1 then
        let e1 = e\<lparr>historyIndex := historyIndex e + 1\<rparr>
        in case index (history e1) (historyIndex e1) of
             None \<Rightarrow> Inl TypeError
           | Some state \<Rightarrow> Inr (restoreState state e1)
      else Inr e)"

text \<open>
  A committed edit: the tool changes the main canvas, then calls \<^verbatim>\<open>saveState()\<close>.
  \<^item> \<^verbatim>\<open>stopDrawing\<close>: the pen stroke has repainted pixels; the sizes stay.
  \<^item> \<^verbatim>\<open>applyCrop\<close>: both canvases take the crop's size and the cropped pixels are put
    on the main canvas.
  \<^item> \<^verbatim>\<open>loadImage\<close>: both canvases take the image's size and the image is drawn.
  The pixels an edit leaves on the canvas are part of the edit.
\<close>

datatype 'b edit = Stroke 'b | Crop nat nat 'b | Load nat nat 'b

fun paint :: "'b edit \<Rightarrow> 'b editor \<Rightarrow> 'b editor" where
  "paint (Stroke b) e = e\<lparr>canvas_pixels := b\<rparr>"
| "paint (Crop w h b) e =
     e\<lparr>canvas_width := w, canvas_height := h, overlay_width := w, overlay_height := h,
       canvas_pixels := b\<rparr>"
| "paint (Load w h b) e =
     e\<lparr>canvas_width := w, canvas_height := h, overlay_width := w, overlay_height := h,
       canvas_pixels := b\<rparr>"

definition commit :: "'b edit \<Rightarrow> 'b editor \<Rightarrow> error + 'b editor" where
  "commit c e = saveState (paint c e)"

text \<open>
  The user's operations on the history, and a sequence of them: the first error ends
  the sequence, as the exception would.
\<close>

datatype 'b op = Commit "'b edit" | Undo | Redo

fun step :: "'b op \<Rightarrow> 'b editor \<Rightarrow> error + 'b editor" where
  "step (Commit c) e = commit c e"
| "step Undo e = undo e"
| "step Redo e = redo e"

fun run :: "'b op list \<Rightarrow> 'b editor \<Rightarrow> error + 'b editor" where
  "run [] e = Inr e"
| "run (x # xs) e = (case step x e of Inl err \<Rightarrow> Inl err | Inr e' \<Rightarrow> run xs e')"

text \<open>The entry \<^verbatim>\<open>saveState\<close> pushes for the canvas as it is.\<close>

definition snapshot :: "'b editor \<Rightarrow> 'b history_entry" where
  "snapshot e =
     \<lparr>entry_imageData = canvas_pixels e, entry_width = canvas_width e,
      entry_height = canvas_height e\<rparr>"

text \<open>
  The states the editor's own operations keep it in: the cursor is \<open>-1\<close> on an empty
  history and an index of the history otherwise, and the history holds at most
  \<open>maxHistory\<close> entries.
\<close>

definition history_ok :: "'b editor \<Rightarrow> bool" where
  "history_ok e \<longleftrightarrow>
     length (history e) \<le> maxHistory \<and> - 1 \<le> historyIndex e \<and>
     historyIndex e < int (length (history e))"

text \<open>The canvas shows the entry under the cursor.\<close>

definition shows_entry :: "'b editor \<Rightarrow> 'b history_entry \<Rightarrow> bool" where
  "shows_entry e state \<longleftrightarrow>
     canvas_width e = entry_width state \<and> canvas_height e = entry_height state \<and>
     canvas_pixels e = entry_imageData state"

subsection \<open>Images and the canvas\<close>

text \<open>
  An image is its width and its rows of pixels, top to bottom; a pixel is \<open>None\<close> when
  it is fully transparent and \<open>Some c\<close> when it has the opaque colour \<open>c\<close> (partial
  transparency does not occur in a tab capture). The data URL that carries an image
  between the calls is a lossless PNG of it and is identified with the image.
\<close>

record 'c image =
  width :: nat
  rows :: "'c option list list"

definition height :: "'c image \<Rightarrow> nat" where
  "height img = length (rows img)"


text \<open>\<^verbatim>\<open>new OffscreenCanvas(w, h)\<close>: every pixel transparent.\<close>

definition OffscreenCanvas :: "nat \<Rightarrow> nat \<Rightarrow> 'c image" where
  "OffscreenCanvas w h = \<lparr>width = w, rows = replicate h (replicate w None)\<rparr>"

text \<open>Source-over compositing of one pixel on another.\<close>

fun over :: "'c option \<Rightarrow> 'c option \<Rightarrow> 'c option" where
  "over None d = d"
| "over (Some c) d = Some c"

text \<open>
  One source row drawn on one canvas row from x = 0: the canvas row keeps its length,
  the source is clipped at the canvas's right edge.
\<close>

fun draw_row :: "'c option list \<Rightarrow> 'c option list \<Rightarrow> 'c option list" where
  "draw_row [] ds = ds"
| "draw_row (s # ss) [] = []"
| "draw_row (s # ss) (d # ds) = over s d # draw_row ss ds"

text \<open>
  Source rows drawn on the canvas rows from row \<open>dy\<close> down: the canvas keeps its
  height, the source is clipped at the canvas's bottom edge.
\<close>

fun draw_rows :: "'c option list list \<Rightarrow> nat \<Rightarrow> 'c option list list \<Rightarrow> 'c option list list" where
  "draw_rows [] dy ds = ds"
| "draw_rows (s # ss) dy [] = []"
| "draw_rows (s # ss) 0 (d # ds) = draw_row s d # draw_rows ss 0 ds"
| "draw_rows (s # ss) (Suc dy) (d # ds) = d # draw_rows (s # ss) dy ds"

text \<open>\<^verbatim>\<open>ctx.drawImage(img, 0, dy)\<close>.\<close>

definition drawImage :: "'c image \<Rightarrow> nat \<Rightarrow> 'c image \<Rightarrow> 'c image" where
  "drawImage img dy canvas = canvas\<lparr>rows := draw_rows (rows img) dy (rows canvas)\<rparr>"

text \<open>
  \<^verbatim>\<open>ctx.drawImage(img, 0, sy, img.width, sh, 0, dy, img.width, sh)\<close>: the source rows
  \<open>sy, ..., sy + sh - 1\<close> at full width, drawn unscaled from row \<open>dy\<close>. The call site has
  \<open>sy > 0\<close>; a source rectangle is clipped to the image, and \<open>sh \<le> 0\<close> selects no row
  of it.
\<close>

definition drawImage_part :: "'c image \<Rightarrow> int \<Rightarrow> int \<Rightarrow> nat \<Rightarrow> 'c image \<Rightarrow> 'c image" where
  "drawImage_part img sy sh dy canvas =
     canvas\<lparr>rows := draw_rows (take (nat sh) (drop (nat sy) (rows img))) dy (rows canvas)\<rparr>"

subsection \<open>Full-page capture\<close>

text \<open>
  The object \<^verbatim>\<open>getPageDimensions()\<close> returns from the page. The four lengths are integers
  of the DOM. \<^verbatim>\<open>window.devicePixelRatio\<close> is a double, fractional on many displays and under
  zoom; its type is the parameter \<open>'r\<close>: \<open>rat\<close> for the ratio as the page reports it (every
  double is a rational), \<open>nat\<close> in the functions below that compute exact pixels, which
  only an integral ratio has.
\<close>

record 'r dimensions =
  scrollWidth :: nat
  scrollHeight :: nat
  viewportWidth :: nat
  viewportHeight :: nat
  devicePixelRatio :: 'r

definition MAX_PAGE_HEIGHT :: nat where
  "MAX_PAGE_HEIGHT = 30000"

text \<open>
  The values \<^verbatim>\<open>Math.ceil(a / b)\<close> takes on non-negative integers: the ceiling of the
  exact quotient, \<^verbatim>\<open>Infinity\<close> for \<open>a / 0\<close> with \<open>a > 0\<close>, \<^verbatim>\<open>NaN\<close> for \<open>0 / 0\<close>. (For
  \<open>a \<le> 30000\<close> the floating-point quotient is never rounded across an integer, so its
  ceiling is the exact one.)
\<close>

datatype number = Num nat | Infinity | NaN

definition ceil_div :: "nat \<Rightarrow> nat \<Rightarrow> number" where
  "ceil_div a b =
     (if b = 0 then (if a = 0 then NaN else Infinity)
      else Num (nat \<lceil>(of_nat a :: rat) / of_nat b\<rceil>))"

text \<open>\<^verbatim>\<open>i < captureCount\<close> and \<^verbatim>\<open>i === captureCount - 1\<close>.\<close>

fun less_number :: "nat \<Rightarrow> number \<Rightarrow> bool" where
  "less_number i (Num n) = (i < n)"
| "less_number i Infinity = True"
| "less_number i NaN = False"

fun is_predecessor :: "nat \<Rightarrow> number \<Rightarrow> bool" where
  "is_predecessor i (Num n) = (int i = int n - 1)"
| "is_predecessor i Infinity = False"
| "is_predecessor i NaN = False"

record 'c capture =
  imageData :: "'c image"
  offsetY :: nat
  isLast :: bool

text \<open>
  The capture loop of \<^verbatim>\<open>captureFullPage\<close>, from index \<open>i\<close> with the captures taken so
  far; \<open>vh\<close> is \<^verbatim>\<open>viewportHeight\<close> and \<open>count\<close> is \<^verbatim>\<open>captureCount\<close>. \<open>capture_at y\<close> stands for the three awaited steps of one iteration: scroll the page
  to \<open>y\<close>, wait, capture the visible tab; it is the captured image, or the error with
  which the platform rejected a step, which ends \<^verbatim>\<open>captureFullPage\<close>. With
  \<open>count = Infinity\<close> the loop never ends: the result is \<open>None\<close>.
\<close>

partial_function (option) capture_loop ::
  "(nat \<Rightarrow> error + 'c image) \<Rightarrow> nat \<Rightarrow> number \<Rightarrow> nat \<Rightarrow> 'c capture list
     \<Rightarrow> (error + 'c capture list) option" where
  "capture_loop capture_at vh count i captures =
     (if less_number i count then
        (let scrollY = i * vh
         in case capture_at scrollY of
              Inl err \<Rightarrow> Some (Inl err)
            | Inr img \<Rightarrow>
                capture_loop capture_at vh count (i + 1)
                  (captures @ [\<lparr>imageData = img, offsetY = scrollY,
                                isLast = is_predecessor i count\<rparr>]))
      else Some (Inr captures))"

text \<open>The first half of \<^verbatim>\<open>captureFullPage\<close>: the list of captures handed to the stitcher.\<close>

definition totalHeight :: "'r dimensions \<Rightarrow> nat" where
  "totalHeight dims = min (scrollHeight dims) MAX_PAGE_HEIGHT"

definition captureCount :: "'r dimensions \<Rightarrow> number" where
  "captureCount dims = ceil_div (totalHeight dims) (viewportHeight dims)"

definition captureSegments ::
  "(nat \<Rightarrow> error + 'c image) \<Rightarrow> 'r dimensions \<Rightarrow> (error + 'c capture list) option" where
  "captureSegments capture_at dims =
     capture_loop capture_at (viewportHeight dims) (captureCount dims) 0 []"

text \<open>One iteration of the drawing loop of \<^verbatim>\<open>stitchImages\<close>.\<close>

definition draw_capture :: "nat dimensions \<Rightarrow> 'c image \<Rightarrow> 'c capture \<Rightarrow> 'c image" where
  "draw_capture dims canvas capture =
     (let img = imageData capture;
          drawY = offsetY capture * devicePixelRatio dims
      in if isLast capture then
           let remainingHeight = int (scrollHeight dims * devicePixelRatio dims) - int drawY;
               sourceY = int (height img) - remainingHeight
           in if sourceY > 0 then drawImage_part img sourceY remainingHeight drawY canvas
              else drawImage img drawY canvas
         else drawImage img drawY canvas)"

fun draw_captures :: "nat dimensions \<Rightarrow> 'c image \<Rightarrow> 'c capture list \<Rightarrow> 'c image" where
  "draw_captures dims canvas [] = canvas"
| "draw_captures dims canvas (capture # captures) =
     draw_captures dims (draw_capture dims canvas capture) captures"

definition stitchImages :: "'c capture list \<Rightarrow> nat dimensions \<Rightarrow> 'c image" where
  "stitchImages captures dims =
     draw_captures dims
       (OffscreenCanvas (viewportWidth dims * devicePixelRatio dims)
          (min (scrollHeight dims) MAX_PAGE_HEIGHT * devicePixelRatio dims))
       captures"

text \<open>
  \<^verbatim>\<open>captureFullPage\<close>, given the dimensions the page reported: capture, stitch, hand the
  stitched image to \<^verbatim>\<open>openEditor\<close>. \<open>None\<close>: the capture loop never ends.
\<close>

definition captureFullPage ::
  "(nat \<Rightarrow> error + 'c image) \<Rightarrow> nat dimensions \<Rightarrow> 'c image background
     \<Rightarrow> (error + 'c image background) option" where
  "captureFullPage capture_at dims s =
     (case captureSegments capture_at dims of
        None \<Rightarrow> None
      | Some (Inl err) \<Rightarrow> Some (Inl err)
      | Some (Inr captures) \<Rightarrow> Some (Inr (openEditor (stitchImages captures dims) s)))"


subsection \<open>The browser the captures come from\<close>




subsection \<open>Stitching with the ratio as the page reports it\<close>

text \<open>
  \<^verbatim>\<open>stitchImages\<close> once more, for \<open>devicePixelRatio :: rat\<close>. What the integral case hides:
  \<^item> Every product and difference of the source is a double; \<open>fl\<close> maps the exact result
    to the double the operation returns (it is monotone and exact on 0, and on every
    integer below \<open>2^53\<close>).
  \<^item> \<^verbatim>\<open>new OffscreenCanvas(w, h)\<close> converts its arguments to unsigned integers, which drops
    the fraction.
  \<^item> \<^verbatim>\<open>drawImage\<close> at coordinates that are whole device pixels copies the source rows as
    above. At fractional coordinates the browser resamples the source; \<open>resample\<close> gives
    the rows it then composites from row \<open>floor dy\<close> down. Either way the canvas keeps its
    size.
  \<^item> \<^verbatim>\<open>canvas.convertToBlob\<close> rejects with \<^verbatim>\<open>IndexSizeError\<close> when the canvas has no pixels.
\<close>

record 'c platform =
  fl :: "rat \<Rightarrow> rat"
  resample :: "'c image \<Rightarrow> rat \<Rightarrow> rat \<Rightarrow> rat \<Rightarrow> 'c option list list"

definition to_unsigned :: "rat \<Rightarrow> nat" where
  "to_unsigned q = nat \<lfloor>q\<rfloor>"

definition whole :: "rat \<Rightarrow> bool" where
  "whole q = (of_int \<lfloor>q\<rfloor> = q)"

text \<open>
  \<^verbatim>\<open>ctx.drawImage(img, 0, sy, img.width, sh, 0, dy, img.width, sh)\<close>; the short form
  \<^verbatim>\<open>ctx.drawImage(img, 0, dy)\<close> is the one with \<open>sy = 0\<close> and \<open>sh = img.height\<close>.
\<close>

definition drawImage_ratio ::
  "'c platform \<Rightarrow> 'c image \<Rightarrow> rat \<Rightarrow> rat \<Rightarrow> rat \<Rightarrow> 'c image \<Rightarrow> 'c image" where
  "drawImage_ratio p img sy sh dy canvas =
     (if whole sy \<and> whole sh \<and> whole dy
      then canvas\<lparr>rows := draw_rows (take (nat \<lfloor>sh\<rfloor>) (drop (nat \<lfloor>sy\<rfloor>) (rows img)))
                              (nat \<lfloor>dy\<rfloor>) (rows canvas)\<rparr>
      else canvas\<lparr>rows := draw_rows (resample p img sy sh dy) (nat \<lfloor>dy\<rfloor>) (rows canvas)\<rparr>)"

definition draw_capture_ratio ::
  "'c platform \<Rightarrow> rat dimensions \<Rightarrow> 'c image \<Rightarrow> 'c capture \<Rightarrow> 'c image" where
  "draw_capture_ratio p dims canvas capture =
     (let img = imageData capture;
          drawY = fl p (of_nat (offsetY capture) * devicePixelRatio dims)
      in if isLast capture then
           let remainingHeight =
                 fl p (fl p (of_nat (scrollHeight dims) * devicePixelRatio dims) - drawY);
               sourceY = fl p (of_nat (height img) - remainingHeight)
           in if sourceY > 0 then drawImage_ratio p img sourceY remainingHeight drawY canvas
              else drawImage_ratio p img 0 (of_nat (height img)) drawY canvas
         else drawImage_ratio p img 0 (of_nat (height img)) drawY canvas)"

fun draw_captures_ratio ::
  "'c platform \<Rightarrow> rat dimensions \<Rightarrow> 'c image \<Rightarrow> 'c capture list \<Rightarrow> 'c image" where
  "draw_captures_ratio p dims canvas [] = canvas"
| "draw_captures_ratio p dims canvas (capture # captures) =
     draw_captures_ratio p dims (draw_capture_ratio p dims canvas capture) captures"

definition stitchImages_ratio ::
  "'c platform \<Rightarrow> 'c capture list \<Rightarrow> rat dimensions \<Rightarrow> error + 'c image" where
  "stitchImages_ratio p captures dims =
     (let canvas = draw_captures_ratio p dims
            (OffscreenCanvas
               (to_unsigned (fl p (of_nat (viewportWidth dims) * devicePixelRatio dims)))
               (to_unsigned (fl p (of_nat (min (scrollHeight dims) MAX_PAGE_HEIGHT) *
                                     devicePixelRatio dims))))
            captures
      in if width canvas = 0 \<or> height canvas = 0 then Inl IndexSizeError else Inr canvas)"

definition captureFullPage_ratio ::
  "'c platform \<Rightarrow> (nat \<Rightarrow> error + 'c image) \<Rightarrow> rat dimensions \<Rightarrow> 'c image background
     \<Rightarrow> (error + 'c image background) option" where
  "captureFullPage_ratio p capture_at dims s =
     (case captureSegments capture_at dims of
        None \<Rightarrow> None
      | Some (Inl err) \<Rightarrow> Some (Inl err)
      | Some (Inr captures) \<Rightarrow>
          (case stitchImages_ratio p captures dims of
             Inl err \<Rightarrow> Some (Inl err)
           | Inr stitched \<Rightarrow> Some (Inr (openEditor stitched s))))"

text \<open>Exact arithmetic, and the same geometry with the ratio as a rational.\<close>

definition exact_platform :: "'c platform" where
  "exact_platform = \<lparr>fl = (\<lambda>q. q), resample = (\<lambda>img sy sh dy. [])\<rparr>"

definition as_ratio :: "nat dimensions \<Rightarrow> rat dimensions" where
  "as_ratio dims =
     \<lparr>scrollWidth = scrollWidth dims, scrollHeight = scrollHeight dims,
      viewportWidth = viewportWidth dims, viewportHeight = viewportHeight dims,
      devicePixelRatio = of_nat (devicePixelRatio dims)\<rparr>"

subsection \<open>Auxiliary notions and example states\<close>

text \<open>
  The canvas is in step with the history: if the cursor is on an entry, the canvas has
  that entry's size and pixels.
\<close>

definition in_sync :: "'b editor \<Rightarrow> bool" where
  "in_sync e =
     (case index (history e) (historyIndex e) of None \<Rightarrow> True | Some st \<Rightarrow> shows_entry e st)"

text \<open>The worker handling a list of messages, one after the other.\<close>

fun deliver :: "message list \<Rightarrow> 'i background \<Rightarrow> 'i background" where
  "deliver [] s = s"
| "deliver (m # ms) s = deliver ms (snd (onMessage m s))"

text \<open>A selector in the middle of a drag that began at (100, 200).\<close>

definition dragging :: selector where
  "dragging = \<lparr>selectionActive = True, isSelecting = True, startX = 100, startY = 200\<rparr>"

text \<open>An editor whose history is full, with the cursor on the newest entry.\<close>

definition full_editor :: "string editor" where
  "full_editor =
     \<lparr>canvas_width = 2, canvas_height = 1, canvas_pixels = ''new'',
      overlay_width = 2, overlay_height = 1,
      history = replicate 20 \<lparr>entry_imageData = ''old'', entry_width = 2, entry_height = 1\<rparr>,
      historyIndex = 19\<rparr>"

text \<open>An editor after loading a 100 x 80 image and cropping it to 50 x 40.\<close>

definition cropped_editor :: "string editor" where
  "cropped_editor =
     \<lparr>canvas_width = 50, canvas_height = 40, canvas_pixels = ''crop'',
      overlay_width = 50, overlay_height = 40,
      history = [\<lparr>entry_imageData = ''page'', entry_width = 100, entry_height = 80\<rparr>,
                 \<lparr>entry_imageData = ''crop'', entry_width = 50, entry_height = 40\<rparr>],
      historyIndex = 1\<rparr>"

text \<open>The same editor after one undo.\<close>

definition undone_editor :: "string editor" where
  "undone_editor =
     \<lparr>canvas_width = 100, canvas_height = 80, canvas_pixels = ''page'',
      overlay_width = 100, overlay_height = 80,
      history = [\<lparr>entry_imageData = ''page'', entry_width = 100, entry_height = 80\<rparr>,
                 \<lparr>entry_imageData = ''crop'', entry_width = 50, entry_height = 40\<rparr>],
      historyIndex = 0\<rparr>"

definition segment :: "(nat \<Rightarrow> 'c image) \<Rightarrow> nat \<Rightarrow> nat \<Rightarrow> nat \<Rightarrow> 'c capture" where
  "segment f vh n i = \<lparr>imageData = f (i * vh), offsetY = i * vh, isLast = (Suc i = n)\<rparr>"

definition tall_page :: "nat dimensions" where
  "tall_page = \<lparr>scrollWidth = 1280, scrollHeight = 2500, viewportWidth = 1280,
                 viewportHeight = 1000, devicePixelRatio = 1\<rparr>"

definition endless_page :: "rat dimensions" where
  "endless_page = \<lparr>scrollWidth = 1280, scrollHeight = 1000000, viewportWidth = 1280,
                    viewportHeight = 1000, devicePixelRatio = 3 / 2\<rparr>"

definition empty_image :: "nat image" where
  "empty_image = \<lparr>width = 0, rows = []\<rparr>"







section \<open>Properties\<close>

subsection \<open>Pending capture slot\<close>

lemma deliver_keeps_empty:
  "pendingCapture s = None \<Longrightarrow> pendingCapture (deliver ms s) = None"
proof (induction ms arbitrary: s)
  case Nil
  then show ?case by simp
next
  case (Cons m ms)
  have "pendingCapture (snd (onMessage m s)) = None"
    using Cons.prems by (cases m) simp_all
  then show ?case using Cons.IH by simp
qed

text \<open>
  Claim C4. The pending-capture slot delivers at most once. After \<open>openEditor img\<close> a
  \<^verbatim>\<open>GET_PENDING_CAPTURE\<close> request is answered with \<open>img\<close>; the request leaves the slot
  empty from whatever state; the request that follows at once, or after any messages
  with no \<open>openEditor\<close> in between, is answered with \<^verbatim>\<open>null\<close>; and a second
  \<open>openEditor\<close> overwrites an image that was never fetched.
\<close>

theorem pending_capture_delivered_once:
  "fst (onMessage GET_PENDING_CAPTURE (openEditor img s)) = Some (ImageDataResponse (Some img)) \<and>
   pendingCapture (snd (onMessage GET_PENDING_CAPTURE s)) = None \<and>
   fst (onMessage GET_PENDING_CAPTURE (snd (onMessage GET_PENDING_CAPTURE (openEditor img s))))
     = Some (ImageDataResponse None) \<and>
   fst (onMessage GET_PENDING_CAPTURE
         (deliver ms (snd (onMessage GET_PENDING_CAPTURE (openEditor img s)))))
     = Some (ImageDataResponse None) \<and>
   fst (onMessage GET_PENDING_CAPTURE (openEditor img2 (openEditor img1 s)))
     = Some (ImageDataResponse (Some img2))"
proof -
  have "pendingCapture (deliver ms (snd (onMessage GET_PENDING_CAPTURE (openEditor img s)))) = None"
    by (rule deliver_keeps_empty) simp
  then show ?thesis by (simp add: openEditor_def)
qed

subsection \<open>Region selector\<close>

text \<open>
  Claim C8. On the pointer-up that ends a drag, the rectangle is normalised by the drag
  direction; if its width or its height is below 10 the only message sent is
  \<^verbatim>\<open>SELECTION_CANCELLED\<close>, whatever the position; otherwise the only message sent is one
  \<^verbatim>\<open>SELECTION_COMPLETE\<close> carrying that rectangle.
\<close>

theorem small_selection_cancels:
  assumes "isSelecting s"
  shows "emitted (snd (onMouseUp r (cx, cy) s)) =
     (if \<bar>cx - startX s\<bar> < 10 \<or> \<bar>cy - startY s\<bar> < 10 then [SELECTION_CANCELLED]
      else [SELECTION_COMPLETE
              \<lparr>sel_x = min (startX s) cx, sel_y = min (startY s) cy,
               sel_width = \<bar>cx - startX s\<bar>, sel_height = \<bar>cy - startY s\<bar>,
               sel_devicePixelRatio = dpr_or_1 r\<rparr>])"
  using assms by (simp add: onMouseUp_def emitted_def Let_def)

theorem small_selection_cancels_witness:
  "isSelecting dragging \<and>
   emitted (snd (onMouseUp 2 (500, 205) dragging)) = [SELECTION_CANCELLED] \<and>
   emitted (snd (onMouseUp 2 (90, 230) dragging)) =
     [SELECTION_COMPLETE \<lparr>sel_x = 90, sel_y = 200, sel_width = 10, sel_height = 30,
                           sel_devicePixelRatio = 2\<rparr>]"
proof -
  have h: "isSelecting dragging" by (simp add: dragging_def)
  show ?thesis
    using h small_selection_cancels [OF h, of 2 500 205] small_selection_cancels [OF h, of 2 90 230]
    by (simp add: dragging_def dpr_or_1_def)
qed

subsection \<open>Editor history\<close>

lemma saveState_eq:
  assumes "history_ok e"
  shows "saveState e =
    (if canvas_width e = 0 \<or> canvas_height e = 0 then Inl IndexSizeError
     else let pushed = take (nat (historyIndex e + 1)) (history e) @ [snapshot e];
              H = (if length pushed > maxHistory then tl pushed else pushed)
          in Inr (e\<lparr>history := H, historyIndex := int (length H) - 1\<rparr>))"
proof -
  let ?n = "length (history e)"
  from assms have ok: "?n \<le> maxHistory" "- 1 \<le> historyIndex e" "historyIndex e < int ?n"
    by (simp_all add: history_ok_def)
  show ?thesis
  proof (cases "historyIndex e < int ?n - 1")
    case True
    with ok have "nat (historyIndex e + 1) + 1 \<le> maxHistory" by linarith
    with True ok show ?thesis
      by (simp add: saveState_def slice0_def snapshot_def Let_def min_def)
  next
    case False
    with ok have idx: "historyIndex e = int ?n - 1" by linarith
    then have tk: "take (nat (historyIndex e + 1)) (history e) = history e" by simp
    show ?thesis
      using idx ok(1) by (auto simp add: saveState_def snapshot_def Let_def tk)
  qed
qed

lemma undo_eq:
  assumes "history_ok e"
  shows "undo e = Inr (if historyIndex e > 0
           then restoreState (history e ! nat (historyIndex e - 1)) (e\<lparr>historyIndex := historyIndex e - 1\<rparr>)
           else e)"
  using assms by (simp add: undo_def index_def history_ok_def Let_def)

lemma redo_eq:
  assumes "history_ok e"
  shows "redo e = Inr (if historyIndex e < int (length (history e)) - 1
           then restoreState (history e ! nat (historyIndex e + 1)) (e\<lparr>historyIndex := historyIndex e + 1\<rparr>)
           else e)"
  using assms by (simp add: redo_def index_def history_ok_def Let_def)

lemma run_append:
  "run (xs @ ys) e = (case run xs e of Inl err \<Rightarrow> Inl err | Inr e' \<Rightarrow> run ys e')"
  by (induction xs arbitrary: e) (auto split: sum.splits)

lemma index_last:
  assumes "historyIndex e = int (length (history e)) - 1" "history e \<noteq> []"
  shows "index (history e) (historyIndex e) = Some (last (history e))"
proof -
  have "nat (int (length (history e)) - 1) = length (history e) - 1" by simp
  with assms show ?thesis by (simp add: index_def last_conv_nth)
qed

lemma saveState_Inr:
  assumes "history_ok e" "saveState e = Inr e'"
  shows "history_ok e'" "historyIndex e' = int (length (history e')) - 1"
    "history e' \<noteq> []" "last (history e') = snapshot e"
    "canvas_width e' = canvas_width e" "canvas_height e' = canvas_height e"
    "canvas_pixels e' = canvas_pixels e"
proof -
  define pushed where "pushed = take (nat (historyIndex e + 1)) (history e) @ [snapshot e]"
  define H where "H = (if length pushed > maxHistory then tl pushed else pushed)"
  from assms have e': "e' = e\<lparr>history := H, historyIndex := int (length H) - 1\<rparr>"
    by (simp add: saveState_eq Let_def pushed_def H_def split: if_splits)
  from assms(1) have ok: "length (history e) \<le> maxHistory" "- 1 \<le> historyIndex e"
    "historyIndex e < int (length (history e))" by (simp_all add: history_ok_def)
  have lp: "length pushed \<le> maxHistory + 1" "length pushed \<ge> 1"
    using ok by (simp_all add: pushed_def)
  have lH: "length H \<le> maxHistory" "length H \<ge> 1"
    using lp by (auto simp add: H_def maxHistory_def)
  have lastH: "last H = snapshot e"
  proof (cases "length pushed > maxHistory")
    case True
    then have "length (tl pushed) \<ge> 1" using lH by (simp add: H_def)
    then have "tl pushed \<noteq> []" by (cases "tl pushed") simp_all
    then have "last (tl pushed) = last pushed" by (simp add: last_tl)
    with True show ?thesis by (simp add: H_def pushed_def)
  next
    case False
    then show ?thesis by (simp add: H_def pushed_def)
  qed
  show "history_ok e'" using lH by (simp add: e' history_ok_def)
  show "historyIndex e' = int (length (history e')) - 1" by (simp add: e')
  show "history e' \<noteq> []" using lH by (auto simp add: e')
  show "last (history e') = snapshot e" using lastH by (simp add: e')
  show "canvas_width e' = canvas_width e" "canvas_height e' = canvas_height e"
    "canvas_pixels e' = canvas_pixels e" by (simp_all add: e')
qed

lemma undo_Inr:
  assumes "history_ok e"
  shows "\<exists>e'. undo e = Inr e' \<and> history_ok e' \<and> history e' = history e \<and>
     historyIndex e' = (if historyIndex e > 0 then historyIndex e - 1 else historyIndex e) \<and>
     (in_sync e \<longrightarrow> in_sync e')"
  using assms
  by (auto simp add: undo_eq history_ok_def restoreState_def in_sync_def index_def shows_entry_def)

lemma redo_Inr:
  assumes "history_ok e"
  shows "\<exists>e'. redo e = Inr e' \<and> history_ok e' \<and> history e' = history e \<and>
     historyIndex e' = (if historyIndex e < int (length (history e)) - 1 then historyIndex e + 1 else historyIndex e) \<and>
     (in_sync e \<longrightarrow> in_sync e')"
  using assms
  by (auto simp add: redo_eq history_ok_def restoreState_def in_sync_def index_def shows_entry_def)

lemma undos_Inr:
  assumes "history_ok e"
  shows "\<exists>e'. run (replicate n Undo) e = Inr e' \<and> history_ok e' \<and> history e' = history e \<and>
     historyIndex e' = (if historyIndex e > 0 then max 0 (historyIndex e - int n) else historyIndex e) \<and>
     (in_sync e \<longrightarrow> in_sync e')"
  using assms
proof (induction n arbitrary: e)
  case 0
  then show ?case by simp
next
  case (Suc n)
  from undo_Inr [OF Suc.prems] obtain e1 where e1: "undo e = Inr e1" "history_ok e1"
    "history e1 = history e"
    "historyIndex e1 = (if historyIndex e > 0 then historyIndex e - 1 else historyIndex e)"
    "in_sync e \<longrightarrow> in_sync e1" by blast
  from Suc.IH [OF e1(2)] obtain e' where e': "run (replicate n Undo) e1 = Inr e'" "history_ok e'"
    "history e' = history e1"
    "historyIndex e' = (if historyIndex e1 > 0 then max 0 (historyIndex e1 - int n) else historyIndex e1)"
    "in_sync e1 \<longrightarrow> in_sync e'" by blast
  show ?case using e1 e' by (auto simp add: max_def)
qed

lemma redos_Inr:
  assumes "history_ok e"
  shows "\<exists>e'. run (replicate n Redo) e = Inr e' \<and> history_ok e' \<and> history e' = history e \<and>
     historyIndex e' = (if historyIndex e < int (length (history e)) - 1
        then min (int (length (history e)) - 1) (historyIndex e + int n) else historyIndex e) \<and>
     (in_sync e \<longrightarrow> in_sync e')"
  using assms
proof (induction n arbitrary: e)
  case 0
  then show ?case by simp
next
  case (Suc n)
  from redo_Inr [OF Suc.prems] obtain e1 where e1: "redo e = Inr e1" "history_ok e1"
    "history e1 = history e"
    "historyIndex e1 = (if historyIndex e < int (length (history e)) - 1 then historyIndex e + 1 else historyIndex e)"
    "in_sync e \<longrightarrow> in_sync e1" by blast
  from Suc.IH [OF e1(2)] obtain e' where e': "run (replicate n Redo) e1 = Inr e'" "history_ok e'"
    "history e' = history e1"
    "historyIndex e' = (if historyIndex e1 < int (length (history e1)) - 1
        then min (int (length (history e1)) - 1) (historyIndex e1 + int n) else historyIndex e1)"
    "in_sync e1 \<longrightarrow> in_sync e'" by blast
  show ?case using e1 e' by (auto simp add: min_def)
qed

lemma commit_Inr:
  assumes "history_ok e" "commit c e = Inr e'"
  shows "history_ok e'" "historyIndex e' = int (length (history e')) - 1"
    "history e' \<noteq> []" "in_sync e'"
proof -
  have ok: "history_ok (paint c e)" using assms(1) by (cases c) (simp_all add: history_ok_def)
  have sv: "saveState (paint c e) = Inr e'" using assms(2) by (simp add: commit_def)
  note r = saveState_Inr [OF ok sv]
  show "history_ok e'" "historyIndex e' = int (length (history e')) - 1" "history e' \<noteq> []"
    using r by simp_all
  have "index (history e') (historyIndex e') = Some (last (history e'))"
    using r(2,3) by (rule index_last)
  then show "in_sync e'"
    using r by (simp add: in_sync_def shows_entry_def snapshot_def)
qed

lemma commits_Inr:
  assumes "history_ok e" "run (map Commit cs) e = Inr e'" "cs \<noteq> []"
  shows "history_ok e' \<and> historyIndex e' = int (length (history e')) - 1 \<and>
    history e' \<noteq> [] \<and> in_sync e'"
  using assms
proof (induction cs arbitrary: e)
  case Nil
  then show ?case by simp
next
  case (Cons c cs)
  from Cons.prems(2) obtain e1 where e1: "commit c e = Inr e1" "run (map Commit cs) e1 = Inr e'"
    by (auto split: sum.splits)
  note r = commit_Inr [OF Cons.prems(1) e1(1)]
  show ?case
  proof (cases "cs = []")
    case True
    with e1(2) have "e' = e1" by simp
    with r show ?thesis by simp
  next
    case False
    from Cons.IH [OF r(1) e1(2) False] show ?thesis .
  qed
qed

lemma paint_history [simp]:
  "history (paint c e) = history e" "historyIndex (paint c e) = historyIndex e"
  by (cases c; simp)+

lemma no_undo_keeps_top:
  assumes "history_ok e" "historyIndex e = int (length (history e)) - 1"
    "Undo \<notin> set ops" "run ops e = Inr e'"
  shows "history_ok e' \<and> historyIndex e' = int (length (history e')) - 1"
  using assms
proof (induction ops arbitrary: e)
  case Nil
  then show ?case by simp
next
  case (Cons x ops)
  from Cons.prems(4) obtain e1 where e1: "step x e = Inr e1" "run ops e1 = Inr e'"
    by (auto split: sum.splits)
  have "history_ok e1 \<and> historyIndex e1 = int (length (history e1)) - 1"
  proof (cases x)
    case (Commit c)
    with e1(1) have "commit c e = Inr e1" by simp
    from commit_Inr(1,2) [OF Cons.prems(1) this] show ?thesis by simp
  next
    case Undo
    with Cons.prems(3) show ?thesis by simp
  next
    case Redo
    with e1(1) Cons.prems(2) have "e1 = e" by (simp add: redo_def)
    with Cons.prems(1,2) show ?thesis by simp
  qed
  moreover have "Undo \<notin> set ops" using Cons.prems(3) by simp
  ultimately show ?case using Cons.IH e1(2) by blast
qed

lemma cropped_editor_reached:
  "run [Commit (Load 100 80 ''page''), Commit (Crop 50 40 ''crop'')] (new_editor 300 150 ''blank'')
     = Inr cropped_editor"
  by (simp add: commit_def saveState_def new_editor_def cropped_editor_def maxHistory_def Let_def)

lemma cropped_editor_undo: "undo cropped_editor = Inr undone_editor"
  by (simp add: undo_def index_def restoreState_def cropped_editor_def undone_editor_def Let_def)

lemma cropped_editor_ok: "history_ok cropped_editor"
  by (simp add: history_ok_def cropped_editor_def maxHistory_def)

text \<open>
  Claim C10. A \<^verbatim>\<open>saveState\<close> on a canvas with non-zero sides succeeds; after it the
  cursor is on the newest entry (\<open>historyIndex = history.length - 1\<close>), the newest entry
  is the snapshot of the canvas, and the history holds at most \<open>maxHistory = 20\<close> entries.
  When the history was full with the cursor on its last entry, the oldest entry is
  evicted and the cursor is still on the newest one.
\<close>

theorem saveState_cursor_at_newest:
  assumes "history_ok e" "0 < canvas_width e" "0 < canvas_height e"
  shows "\<exists>e'. saveState e = Inr e' \<and>
     historyIndex e' = int (length (history e')) - 1 \<and>
     length (history e') \<le> maxHistory \<and> maxHistory = 20 \<and>
     history e' \<noteq> [] \<and> last (history e') = snapshot e \<and>
     (length (history e) = maxHistory \<and> historyIndex e = int maxHistory - 1 \<longrightarrow>
        history e' = tl (history e) @ [snapshot e])"
proof -
  from assms obtain e' where sv: "saveState e = Inr e'"
    by (simp add: saveState_eq Let_def)
  note r = saveState_Inr [OF assms(1) sv]
  have full: "history e' = tl (history e) @ [snapshot e]"
    if "length (history e) = maxHistory" "historyIndex e = int maxHistory - 1"
  proof -
    from that have "history e \<noteq> []" by (auto simp add: maxHistory_def)
    with that sv assms show ?thesis
      by (auto simp add: saveState_eq Let_def)
  qed
  from r(1) have "length (history e') \<le> maxHistory" by (simp add: history_ok_def)
  with sv r full show ?thesis by (simp add: maxHistory_def)
qed

theorem saveState_cursor_at_newest_witness:
  "history_ok full_editor \<and> 0 < canvas_width full_editor \<and> 0 < canvas_height full_editor \<and>
   length (history full_editor) = maxHistory \<and>
   (\<exists>e'. saveState full_editor = Inr e' \<and> historyIndex e' = 19 \<and> length (history e') = 20 \<and>
      last (history e') = \<lparr>entry_imageData = ''new'', entry_width = 2, entry_height = 1\<rparr>)"
proof -
  have h: "history_ok full_editor" "0 < canvas_width full_editor" "0 < canvas_height full_editor"
    by (simp_all add: history_ok_def full_editor_def maxHistory_def)
  have l: "length (history full_editor) = maxHistory" "historyIndex full_editor = int maxHistory - 1"
    by (simp_all add: full_editor_def maxHistory_def)
  from saveState_cursor_at_newest [OF h] l obtain e' where
    "saveState full_editor = Inr e'" "historyIndex e' = int (length (history e')) - 1"
    "history e' = tl (history full_editor) @ [snapshot full_editor]" by blast
  with h l show ?thesis
    by (simp add: snapshot_def full_editor_def maxHistory_def)
qed

text \<open>
  Claim C5. After N committed edits, N undo operations followed by N redo operations
  all succeed and leave the canvas with the width, the height and the pixels it had
  right after the Nth edit (and the history and the cursor as they were). This holds for
  every N, so for every N up to the history capacity.
\<close>

theorem undo_redo_roundtrip:
  assumes "history_ok e0" "run (map Commit cs) e0 = Inr e1"
  shows "\<exists>e2 e3. run (replicate (length cs) Undo) e1 = Inr e2 \<and>
     run (replicate (length cs) Redo) e2 = Inr e3 \<and>
     canvas_width e3 = canvas_width e1 \<and> canvas_height e3 = canvas_height e1 \<and>
     canvas_pixels e3 = canvas_pixels e1 \<and>
     history e3 = history e1 \<and> historyIndex e3 = historyIndex e1"
proof (cases "cs = []")
  case True
  then show ?thesis by simp
next
  case False
  let ?n = "length cs"
  from commits_Inr [OF assms False] have e1: "history_ok e1"
    "historyIndex e1 = int (length (history e1)) - 1" "history e1 \<noteq> []" "in_sync e1" by simp_all
  from undos_Inr [OF e1(1), of ?n] e1(4) obtain e2 where e2: "run (replicate ?n Undo) e1 = Inr e2"
    "history_ok e2" "history e2 = history e1"
    "historyIndex e2 = (if historyIndex e1 > 0 then max 0 (historyIndex e1 - int ?n) else historyIndex e1)"
    "in_sync e2" by blast
  from redos_Inr [OF e2(2), of ?n] e2(5) obtain e3 where e3: "run (replicate ?n Redo) e2 = Inr e3"
    "history_ok e3" "history e3 = history e2"
    "historyIndex e3 = (if historyIndex e2 < int (length (history e2)) - 1
        then min (int (length (history e2)) - 1) (historyIndex e2 + int ?n) else historyIndex e2)"
    "in_sync e3" by blast
  have len: "length (history e1) > 0" using e1(3) by simp
  have idx3: "historyIndex e3 = historyIndex e1"
    using e3(4) e2(3,4) e1(2) len by (auto simp add: min_def max_def)
  have h3: "history e3 = history e1" using e3(3) e2(3) by simp
  have i1: "index (history e1) (historyIndex e1) = Some (last (history e1))"
    using e1(2,3) by (rule index_last)
  from e1(4) i1 have s1: "shows_entry e1 (last (history e1))" by (simp add: in_sync_def)
  from e3(5) i1 idx3 h3 have s3: "shows_entry e3 (last (history e1))" by (simp add: in_sync_def)
  from s1 s3 e2(1) e3(1) idx3 h3 show ?thesis by (simp add: shows_entry_def)
qed

theorem undo_redo_roundtrip_witness:
  "history_ok (new_editor 300 150 ''blank'') \<and>
   run (map Commit [Load 100 80 ''page'', Crop 50 40 ''crop'']) (new_editor 300 150 ''blank'')
     = Inr cropped_editor \<and>
   (\<exists>e2 e3. run (replicate 2 Undo) cropped_editor = Inr e2 \<and>
      run (replicate 2 Redo) e2 = Inr e3 \<and>
      canvas_width e3 = 50 \<and> canvas_height e3 = 40 \<and> canvas_pixels e3 = ''crop'')"
proof -
  have h1: "history_ok (new_editor 300 150 ''blank'')"
    by (simp add: history_ok_def new_editor_def)
  have h2: "run (map Commit [Load 100 80 ''page'', Crop 50 40 ''crop'']) (new_editor 300 150 ''blank'')
     = Inr cropped_editor"
    using cropped_editor_reached by simp
  have two: "length [Load 100 80 ''page'', Crop 50 40 ''crop''] = 2" by simp
  from undo_redo_roundtrip [OF h1 h2] have "\<exists>e2 e3. run (replicate 2 Undo) cropped_editor = Inr e2 \<and>
      run (replicate 2 Redo) e2 = Inr e3 \<and>
      canvas_width e3 = canvas_width cropped_editor \<and> canvas_height e3 = canvas_height cropped_editor \<and>
      canvas_pixels e3 = canvas_pixels cropped_editor"
    unfolding two by blast
  then have "\<exists>e2 e3. run (replicate 2 Undo) cropped_editor = Inr e2 \<and>
      run (replicate 2 Redo) e2 = Inr e3 \<and>
      canvas_width e3 = 50 \<and> canvas_height e3 = 40 \<and> canvas_pixels e3 = ''crop''"
    by (simp add: cropped_editor_def)
  with h1 h2 show ?thesis by blast
qed

text \<open>
  Claim C6. From a state whose cursor is on the newest entry, K undo steps (K at most the
  cursor) leave exactly K entries above the cursor, the redoable ones. A committed edit
  then keeps the entries up to the cursor and appends the new snapshot, so the K
  redoable entries are gone; it leaves the cursor on the newest entry, \<open>redo\<close> changes
  nothing, and it keeps changing nothing after any further operations that contain no
  \<open>undo\<close>.
\<close>

theorem commit_after_undo_discards_redo:
  assumes "history_ok e" "historyIndex e = int (length (history e)) - 1"
    "int K \<le> historyIndex e"
  shows "\<exists>e1. run (replicate K Undo) e = Inr e1 \<and>
     history e1 = history e \<and> historyIndex e1 = historyIndex e - int K \<and>
     length (drop (nat (historyIndex e1 + 1)) (history e1)) = K \<and>
     (0 < canvas_width (paint c e1) \<and> 0 < canvas_height (paint c e1) \<longrightarrow>
       (\<exists>e2. commit c e1 = Inr e2 \<and>
         (0 < K \<longrightarrow>
            history e2 = take (length (history e) - K) (history e) @ [snapshot (paint c e1)]) \<and>
         historyIndex e2 = int (length (history e2)) - 1 \<and>
         redo e2 = Inr e2 \<and>
         (\<forall>ops e3. Undo \<notin> set ops \<and> run ops e2 = Inr e3 \<longrightarrow> redo e3 = Inr e3)))"
proof -
  let ?n = "length (history e)"
  from undos_Inr [OF assms(1), of K] obtain e1 where e1:
    "run (replicate K Undo) e = Inr e1" "history_ok e1" "history e1 = history e"
    "historyIndex e1 = (if historyIndex e > 0 then max 0 (historyIndex e - int K) else historyIndex e)"
    by blast
  have idx1: "historyIndex e1 = historyIndex e - int K"
    using e1(4) assms(3) by (auto simp add: max_def)
  have nat1: "nat (historyIndex e1 + 1) = ?n - K"
    using idx1 assms(2,3) by linarith
  have Kle: "K < ?n" using assms(2,3) by linarith
  have dropK: "length (drop (nat (historyIndex e1 + 1)) (history e1)) = K"
    using nat1 e1(3) Kle by simp
  have ok1: "history_ok (paint c e1)" using e1(2) by (simp add: history_ok_def)
  have le20: "?n \<le> maxHistory" using assms(1) by (simp add: history_ok_def)
  define pushed where "pushed = take (?n - K) (history e) @ [snapshot (paint c e1)]"
  define H where "H = (if length pushed > maxHistory then tl pushed else pushed)"
  define e2 where "e2 = paint c e1\<lparr>history := H, historyIndex := int (length H) - 1\<rparr>"
  have after: "commit c e1 = Inr e2 \<and>
         (0 < K \<longrightarrow>
            history e2 = take (length (history e) - K) (history e) @ [snapshot (paint c e1)]) \<and>
         historyIndex e2 = int (length (history e2)) - 1 \<and>
         redo e2 = Inr e2 \<and>
         (\<forall>ops e3. Undo \<notin> set ops \<and> run ops e2 = Inr e3 \<longrightarrow> redo e3 = Inr e3)"
    if dims: "0 < canvas_width (paint c e1) \<and> 0 < canvas_height (paint c e1)"
  proof -
    have sv: "commit c e1 = Inr e2"
      using dims nat1 e1(3)
      by (simp add: commit_def saveState_eq [OF ok1] Let_def pushed_def H_def e2_def)
    have h2: "0 < K \<longrightarrow> history e2 = take (?n - K) (history e) @ [snapshot (paint c e1)]"
      using Kle le20 by (auto simp add: H_def pushed_def e2_def)
    have top2: "historyIndex e2 = int (length (history e2)) - 1" by (simp add: e2_def)
    have ok2: "history_ok e2" using commit_Inr(1) [OF e1(2) sv] .
    have redo2: "redo e2 = Inr e2" using top2 by (simp add: redo_def)
    have later: "redo e3 = Inr e3" if "Undo \<notin> set ops" "run ops e2 = Inr e3" for ops e3
    proof -
      from no_undo_keeps_top [OF ok2 top2 that]
      show ?thesis by (simp add: redo_def)
    qed
    from sv h2 top2 redo2 later show ?thesis by (intro conjI allI impI) auto
  qed
  from e1(1,3) idx1 dropK after show ?thesis by blast
qed

theorem commit_after_undo_discards_redo_witness:
  "history_ok cropped_editor \<and>
   historyIndex cropped_editor = int (length (history cropped_editor)) - 1 \<and>
   int 1 \<le> historyIndex cropped_editor \<and>
   run (replicate 1 Undo) cropped_editor = Inr undone_editor \<and>
   0 < canvas_width (paint (Stroke ''pen'') undone_editor) \<and>
   0 < canvas_height (paint (Stroke ''pen'') undone_editor) \<and>
   (\<exists>e2. commit (Stroke ''pen'') undone_editor = Inr e2 \<and>
      history e2 = [\<lparr>entry_imageData = ''page'', entry_width = 100, entry_height = 80\<rparr>,
                    \<lparr>entry_imageData = ''pen'', entry_width = 100, entry_height = 80\<rparr>] \<and>
      redo e2 = Inr e2)"
proof -
  have h: "historyIndex cropped_editor = int (length (history cropped_editor)) - 1"
    "int 1 \<le> historyIndex cropped_editor"
    by (simp_all add: cropped_editor_def)
  have u: "run (replicate 1 Undo) cropped_editor = Inr undone_editor"
    by (simp add: cropped_editor_undo)
  have d: "0 < canvas_width (paint (Stroke ''pen'') undone_editor)"
    "0 < canvas_height (paint (Stroke ''pen'') undone_editor)"
    by (simp_all add: undone_editor_def)
  from commit_after_undo_discards_redo [OF cropped_editor_ok h, of "Stroke ''pen''"] u d
  obtain e2 where e2: "commit (Stroke ''pen'') undone_editor = Inr e2"
    "history e2 = take (length (history cropped_editor) - 1) (history cropped_editor) @
        [snapshot (paint (Stroke ''pen'') undone_editor)]"
    "redo e2 = Inr e2" by auto
  from e2(2) have "history e2 = [\<lparr>entry_imageData = ''page'', entry_width = 100, entry_height = 80\<rparr>,
                    \<lparr>entry_imageData = ''pen'', entry_width = 100, entry_height = 80\<rparr>]"
    by (simp add: cropped_editor_def undone_editor_def snapshot_def)
  with e2 h u d cropped_editor_ok show ?thesis by blast
qed

text \<open>
  Claim C9, as amended. After an undo or a redo that restores a state, the canvas has
  the width, height and pixels of the history entry under the cursor,
  \<open>history[historyIndex]\<close>; that entry is the topmost one only when the cursor is on the
  last index.
\<close>

theorem restore_shows_cursor_entry:
  assumes "history_ok e"
    "x = Undo \<and> 0 < historyIndex e \<or> x = Redo \<and> historyIndex e < int (length (history e)) - 1"
  shows "\<exists>e' st. step x e = Inr e' \<and> index (history e') (historyIndex e') = Some st \<and>
     canvas_width e' = entry_width st \<and> canvas_height e' = entry_height st \<and>
     canvas_pixels e' = entry_imageData st \<and>
     (historyIndex e' = int (length (history e')) - 1 \<longrightarrow> st = last (history e'))"
proof -
  from assms(1) have ok: "- 1 \<le> historyIndex e" "historyIndex e < int (length (history e))"
    by (simp_all add: history_ok_def)
  from assms(2) show ?thesis
  proof
    assume u: "x = Undo \<and> 0 < historyIndex e"
    then have "nat (historyIndex e - 1) < length (history e)" using ok by linarith
    with u ok show ?thesis
      by (simp add: undo_eq [OF assms(1)] restoreState_def index_def)
  next
    assume r: "x = Redo \<and> historyIndex e < int (length (history e)) - 1"
    from r ok have ne: "history e \<noteq> []" by auto
    have l: "history e ! nat (historyIndex e + 1) = last (history e)"
      if "historyIndex e + 1 = int (length (history e)) - 1"
    proof -
      from that have "nat (historyIndex e + 1) = length (history e) - 1" by linarith
      with ne show ?thesis by (simp add: last_conv_nth)
    qed
    have lt: "nat (historyIndex e + 1) < length (history e)" using r ok by linarith
    from r ok lt l show ?thesis
      by (simp add: redo_eq [OF assms(1)] restoreState_def index_def)
  qed
qed

theorem restore_shows_cursor_entry_witness:
  "history_ok cropped_editor \<and> 0 < historyIndex cropped_editor \<and>
   (\<exists>e'. step Undo cropped_editor = Inr e' \<and>
      index (history e') (historyIndex e')
        = Some \<lparr>entry_imageData = ''page'', entry_width = 100, entry_height = 80\<rparr> \<and>
      canvas_width e' = 100 \<and> canvas_height e' = 80 \<and> canvas_pixels e' = ''page'')"
proof -
  have h: "Undo = Undo \<and> 0 < historyIndex cropped_editor \<or>
     Undo = Redo \<and> historyIndex cropped_editor < int (length (history cropped_editor)) - 1"
    by (simp add: cropped_editor_def)
  from restore_shows_cursor_entry [OF cropped_editor_ok h]
  obtain e' st where r: "step Undo cropped_editor = Inr e'"
    "index (history e') (historyIndex e') = Some st"
    "canvas_width e' = entry_width st" "canvas_height e' = entry_height st"
    "canvas_pixels e' = entry_imageData st" by blast
  from r(1) have "e' = undone_editor" by (simp add: cropped_editor_undo)
  with r(2) have "st = \<lparr>entry_imageData = ''page'', entry_width = 100, entry_height = 80\<rparr>"
    by (simp add: undone_editor_def index_def)
  with r h cropped_editor_ok show ?thesis by auto
qed

text \<open>
  Claim C9 as stated fails: after loading a 100 x 80 image, cropping it to 50 x 40 and
  one undo, the canvas is 100 x 80 while the topmost history entry is 50 x 40.
\<close>

theorem undo_topmost_entry_counterexample:
  "run [Commit (Load 100 80 ''page''), Commit (Crop 50 40 ''crop'')] (new_editor 300 150 ''blank'')
     = Inr cropped_editor \<and>
   undo cropped_editor = Inr undone_editor \<and>
   canvas_width undone_editor = 100 \<and> entry_width (last (history undone_editor)) = 50 \<and>
   canvas_height undone_editor = 80 \<and> entry_height (last (history undone_editor)) = 40"
  by (intro conjI cropped_editor_reached cropped_editor_undo) (simp_all add: undone_editor_def)

subsection \<open>Full-page capture and stitching\<close>

lemma capture_loop_Num:
  "capture_loop (\<lambda>y. Inr (f y)) vh (Num n) i captures =
     Some (Inr (captures @ map (segment f vh n) [i..<n]))"
proof (induction "n - i" arbitrary: i captures)
  case 0
  then show ?case by (subst capture_loop.simps) simp
next
  case (Suc k)
  then have lt: "i < n" and k: "k = n - (i + 1)" by simp_all
  have p: "(int i = int n - 1) = (Suc i = n)" by auto
  have up: "[i..<n] = i # [i + 1..<n]" using lt by (simp add: upt_conv_Cons)
  have "capture_loop (\<lambda>y. Inr (f y)) vh (Num n) i captures =
        capture_loop (\<lambda>y. Inr (f y)) vh (Num n) (i + 1) (captures @ [segment f vh n i])"
    by (subst capture_loop.simps) (simp add: lt p segment_def Let_def)
  also have "\<dots> = Some (Inr ((captures @ [segment f vh n i]) @ map (segment f vh n) [i + 1..<n]))"
    by (rule Suc.hyps(1) [OF k])
  finally show ?case by (simp add: up)
qed

text \<open>
  With \<open>viewportHeight = 0\<close> on a page of positive height the count is \<^verbatim>\<open>Infinity\<close>; while
  the captures succeed the loop then never ends and \<^verbatim>\<open>captureFullPage\<close> never returns.
\<close>

lemma capture_loop_Some_finite:
  assumes "capture_loop capture_at vh count i captures = Some r"
  shows "\<not> (count = Infinity \<and> (\<forall>y. \<exists>img. capture_at y = Inr img))"
proof (rule capture_loop.raw_induct
    [where P = "\<lambda>capture_at vh count i captures r.
       \<not> (count = Infinity \<and> (\<forall>y. \<exists>img. capture_at y = Inr img))", OF _ assms])
  fix loop :: "(nat \<Rightarrow> error + 'a image) \<Rightarrow> nat \<Rightarrow> number \<Rightarrow> nat \<Rightarrow> 'a capture list
     \<Rightarrow> (error + 'a capture list) option"
  fix capture_at vh count i captures r
  assume IH: "\<And>capture_at vh count i captures r. loop capture_at vh count i captures = Some r \<Longrightarrow>
      \<not> (count = Infinity \<and> (\<forall>y. \<exists>img. capture_at y = Inr img))"
    and body: "(if less_number i count then
        (let scrollY = i * vh
         in case capture_at scrollY of
              Inl err \<Rightarrow> Some (Inl err)
            | Inr img \<Rightarrow>
                loop capture_at vh count (i + 1)
                  (captures @ [\<lparr>imageData = img, offsetY = scrollY,
                                isLast = is_predecessor i count\<rparr>]))
      else Some (Inr captures)) = Some r"
  show "\<not> (count = Infinity \<and> (\<forall>y. \<exists>img. capture_at y = Inr img))"
  proof
    assume a: "count = Infinity \<and> (\<forall>y. \<exists>img. capture_at y = Inr img)"
    then obtain img where img: "capture_at (i * vh) = Inr img" by blast
    from body a img have "loop capture_at vh count (i + 1)
        (captures @ [\<lparr>imageData = img, offsetY = i * vh, isLast = is_predecessor i count\<rparr>]) = Some r"
      by (simp add: Let_def)
    from IH [OF this] a show False by blast
  qed
qed

lemma capture_loop_Infinity:
  "capture_loop (\<lambda>y. Inr (f y)) vh Infinity i captures = None"
proof (cases "capture_loop (\<lambda>y. Inr (f y)) vh Infinity i captures")
  case None
  then show ?thesis .
next
  case (Some r)
  from capture_loop_Some_finite [OF Some] show ?thesis by simp
qed

lemma captureFullPage_never_returns:
  assumes "viewportHeight dims = 0" "0 < scrollHeight dims"
  shows "captureFullPage (\<lambda>y. Inr (f y)) dims s = None"
proof -
  have "totalHeight dims \<noteq> 0" using assms(2) by (simp add: totalHeight_def MAX_PAGE_HEIGHT_def)
  then have "captureCount dims = Infinity" using assms(1) by (simp add: captureCount_def ceil_div_def)
  then show ?thesis
    by (simp add: captureFullPage_def captureSegments_def capture_loop_Infinity)
qed

lemma over_None [simp]: "over s None = s"
  by (cases s) simp_all

lemma length_draw_row [simp]: "length (draw_row ss ds) = length ds"
  by (induction ss ds rule: draw_row.induct) simp_all

lemma length_draw_rows [simp]: "length (draw_rows ss dy ds) = length ds"
  by (induction ss dy ds rule: draw_rows.induct) simp_all






lemma draw_capture_width [simp]: "width (draw_capture dims canvas c) = width canvas"
  by (simp add: draw_capture_def drawImage_def drawImage_part_def Let_def)

lemma draw_capture_height [simp]: "height (draw_capture dims canvas c) = height canvas"
  by (simp add: draw_capture_def drawImage_def drawImage_part_def Let_def height_def)


lemma OffscreenCanvas_size [simp]:
  "width (OffscreenCanvas w h) = w" "height (OffscreenCanvas w h) = h"
  by (simp_all add: OffscreenCanvas_def height_def)






lemma ceil_nat_div:
  assumes "0 < b"
  shows "nat \<lceil>(of_nat a :: rat) / of_nat b\<rceil> = (a + b - 1) div b"
proof -
  define q r where "q = a div b" and "r = a mod b"
  have a: "a = q * b + r" by (simp add: q_def r_def)
  have r: "r < b" using assms by (simp add: r_def)
  have b0: "b \<noteq> 0" using assms by simp
  have rhs: "(a + b - 1) div b = (if r = 0 then q else q + 1)"
  proof (cases "r = 0")
    case True
    then have "a + b - 1 = q * b + (b - 1)" using a assms by simp
    moreover have "(q * b + (b - 1)) div b = q + (b - 1) div b" by (rule div_mult_self3 [OF b0])
    moreover have "(b - 1) div b = 0" using assms by simp
    ultimately show ?thesis using True by simp
  next
    case False
    then have "a + b - 1 = (q + 1) * b + (r - 1)" using a by simp
    moreover have "((q + 1) * b + (r - 1)) div b = (q + 1) + (r - 1) div b"
      by (rule div_mult_self3 [OF b0])
    moreover have "(r - 1) div b = 0" using r by simp
    ultimately show ?thesis using False by simp
  qed
  have m: "(int a mod int b = 0) = (r = 0)"
    by (simp add: r_def flip: of_nat_mod)
  have d: "int a div int b = int q"
    by (simp add: q_def flip: of_nat_div)
  have "\<lceil>(of_nat a :: rat) / of_nat b\<rceil> = \<lceil>(of_int (int a) :: rat) / of_int (int b)\<rceil>" by simp
  also have "\<dots> = - (- int a div int b)" by (rule ceiling_divide_eq_div)
  also have "\<dots> = (if r = 0 then int q else int q + 1)"
    using assms by (simp add: zdiv_zminus1_eq_if m d)
  also have "\<dots> = int (if r = 0 then q else q + 1)" by simp
  finally show ?thesis using rhs by (simp only: nat_int)
qed

lemma ceil_div_Num: "0 < b \<Longrightarrow> ceil_div a b = Num ((a + b - 1) div b)"
  by (simp add: ceil_div_def ceil_nat_div)



lemma captureCount_Num:
  assumes "0 < viewportHeight dims"
  shows "captureCount dims =
     Num ((totalHeight dims + viewportHeight dims - 1) div viewportHeight dims)"
  using assms by (simp add: captureCount_def ceil_div_Num)

lemma captureSegments_all:
  assumes "0 < viewportHeight dims"
  shows "captureSegments (\<lambda>y. Inr (f y)) dims =
     Some (Inr (map (segment f (viewportHeight dims)
        ((totalHeight dims + viewportHeight dims - 1) div viewportHeight dims))
        [0..<(totalHeight dims + viewportHeight dims - 1) div viewportHeight dims]))"
  by (simp add: captureSegments_def captureCount_Num [OF assms] capture_loop_Num)

text \<open>
  Claim C2. With \<open>viewportHeight > 0\<close> and every capture succeeding,
  \<^verbatim>\<open>captureFullPage\<close> computes \<open>totalHeight = min(scrollHeight, 30000)\<close> and takes exactly
  \<open>n = ceil(totalHeight / viewportHeight)\<close> captures; capture \<open>i\<close> is taken at offset
  \<open>i * viewportHeight\<close>, the offsets are strictly increasing in the order of capture, and
  only capture \<open>n - 1\<close> is tagged as the last one. (The witness is the geometry
  2500 / 1000: three captures at 0, 1000, 2000.)
\<close>

theorem capture_segments_count_and_offsets:
  assumes "0 < viewportHeight dims" "\<forall>y. capture_at y = Inr (f y)"
  shows "\<exists>n. totalHeight dims = min (scrollHeight dims) 30000 \<and>
     captureCount dims = Num n \<and>
     int n = \<lceil>(of_nat (totalHeight dims) :: rat) / of_nat (viewportHeight dims)\<rceil> \<and>
     n = (totalHeight dims + viewportHeight dims - 1) div viewportHeight dims \<and>
     captureSegments capture_at dims =
       Some (Inr (map (\<lambda>i. \<lparr>imageData = f (i * viewportHeight dims),
                                offsetY = i * viewportHeight dims,
                                isLast = (i + 1 = n)\<rparr>) [0..<n])) \<and>
     sorted_wrt (<) (map (\<lambda>i. i * viewportHeight dims) [0..<n])"
proof -
  let ?V = "viewportHeight dims"
  let ?T = "totalHeight dims"
  define n where "n = (?T + ?V - 1) div ?V"
  have ca: "capture_at = (\<lambda>y. Inr (f y))" using assms(2) by auto
  have t: "?T = min (scrollHeight dims) 30000"
    by (simp add: totalHeight_def MAX_PAGE_HEIGHT_def)
  have c: "captureCount dims = Num n"
    using assms(1) by (simp add: captureCount_Num n_def)
  have "nat \<lceil>(of_nat ?T :: rat) / of_nat ?V\<rceil> = n"
    using assms(1) by (simp add: ceil_nat_div n_def)
  moreover have "(0 :: rat) \<le> of_nat ?T / of_nat ?V" by simp
  then have "- 1 < (of_nat ?T :: rat) / of_nat ?V" by linarith
  then have "0 \<le> \<lceil>(of_nat ?T :: rat) / of_nat ?V\<rceil>" by (simp only: zero_le_ceiling)
  ultimately have ce: "int n = \<lceil>(of_nat ?T :: rat) / of_nat ?V\<rceil>" by linarith
  have s: "captureSegments capture_at dims =
       Some (Inr (map (\<lambda>i. \<lparr>imageData = f (i * ?V), offsetY = i * ?V,
                                isLast = (i + 1 = n)\<rparr>) [0..<n]))"
    unfolding ca captureSegments_all [OF assms(1)] n_def [symmetric]
    by (simp add: segment_def fun_eq_iff)
  have "sorted_wrt (\<lambda>i j. i * ?V < j * ?V) [0..<n]"
    using assms(1) by (intro sorted_wrt_mono_rel [OF _ sorted_wrt_upt]) simp
  then have o: "sorted_wrt (<) (map (\<lambda>i. i * ?V) [0..<n])" by (simp add: sorted_wrt_map)
  from t c ce s o show ?thesis unfolding n_def by blast
qed

theorem capture_segments_count_and_offsets_witness:
  "0 < viewportHeight tall_page \<and> scrollHeight tall_page = 2500 \<and>
   viewportHeight tall_page = 1000 \<and>
   captureCount tall_page = Num 3 \<and>
   captureSegments (\<lambda>y. Inr empty_image) tall_page =
     Some (Inr [\<lparr>imageData = empty_image, offsetY = 0, isLast = False\<rparr>,
                \<lparr>imageData = empty_image, offsetY = 1000, isLast = False\<rparr>,
                \<lparr>imageData = empty_image, offsetY = 2000, isLast = True\<rparr>])"
proof -
  have h: "0 < viewportHeight tall_page" by (simp add: tall_page_def)
  have e: "\<forall>y. (\<lambda>y. Inr empty_image) y = (Inr ((\<lambda>y. empty_image) y) :: error + nat image)" by simp
  have n: "(totalHeight tall_page + viewportHeight tall_page - 1) div viewportHeight tall_page = 3"
    by (simp add: tall_page_def totalHeight_def MAX_PAGE_HEIGHT_def)
  have u: "[0..<3] = [0, 1, 2]" by code_simp
  from capture_segments_count_and_offsets [OF h e]
  have "captureCount tall_page = Num 3 \<and>
     captureSegments (\<lambda>y. Inr empty_image) tall_page =
       Some (Inr (map (\<lambda>i. \<lparr>imageData = empty_image,
                                offsetY = i * viewportHeight tall_page,
                                isLast = (i + 1 = 3)\<rparr>) [0..<3]))"
    unfolding n by auto
  then show ?thesis using h by (simp add: u) (simp add: tall_page_def)
qed

text \<open>Drawing never changes the size of the canvas; the fraction of its height is dropped.\<close>

lemma drawImage_ratio_size [simp]:
  "width (drawImage_ratio p img sy sh dy canvas) = width canvas"
  "height (drawImage_ratio p img sy sh dy canvas) = height canvas"
  by (simp_all add: drawImage_ratio_def height_def)

lemma draw_capture_ratio_size [simp]:
  "width (draw_capture_ratio p dims canvas c) = width canvas"
  "height (draw_capture_ratio p dims canvas c) = height canvas"
  by (simp_all add: draw_capture_ratio_def Let_def)

lemma draw_captures_ratio_size [simp]:
  "width (draw_captures_ratio p dims canvas cs) = width canvas"
  "height (draw_captures_ratio p dims canvas cs) = height canvas"
  by (induction cs arbitrary: canvas) simp_all

lemma stitchImages_ratio_size:
  assumes "stitchImages_ratio p cs dims = Inr img"
  shows "width img = to_unsigned (fl p (of_nat (viewportWidth dims) * devicePixelRatio dims))"
    "height img = to_unsigned (fl p (of_nat (min (scrollHeight dims) MAX_PAGE_HEIGHT) *
                                       devicePixelRatio dims))"
  using assms by (auto simp add: stitchImages_ratio_def Let_def split: if_splits)

lemma stitchImages_ratio_returns:
  assumes "0 < to_unsigned (fl p (of_nat (viewportWidth dims) * devicePixelRatio dims))"
    "0 < to_unsigned (fl p (of_nat (min (scrollHeight dims) MAX_PAGE_HEIGHT) *
                              devicePixelRatio dims))"
  shows "\<exists>img. stitchImages_ratio p cs dims = Inr img"
  using assms by (simp add: stitchImages_ratio_def Let_def)

lemma to_unsigned_le:
  assumes "0 \<le> q"
  shows "of_nat (to_unsigned q) \<le> q"
proof -
  have "0 \<le> \<lfloor>q\<rfloor>" using assms by simp
  then have "(of_nat (nat \<lfloor>q\<rfloor>) :: rat) = of_int \<lfloor>q\<rfloor>" by simp
  also have "\<dots> \<le> q" by (rule of_int_floor_le)
  finally show ?thesis by (simp add: to_unsigned_def)
qed

text \<open>
  Claim C7. For every page geometry with a non-negative device pixel ratio, integral or
  fractional, whatever the captures and whatever the browser's resampling: an image
  that \<^verbatim>\<open>captureFullPage\<close> hands over has
  \<open>floor (min(scrollHeight, MAX_PAGE_HEIGHT) * devicePixelRatio)\<close> rows, which is at most
  \<open>MAX_PAGE_HEIGHT * devicePixelRatio\<close> with \<open>MAX_PAGE_HEIGHT = 30000\<close>, both products being
  the doubles the program computes (\<open>fl\<close> monotone and exact on 0; exact arithmetic is
  the case \<open>fl q = q\<close>). With \<open>viewportHeight > 0\<close>, every capture succeeding and a canvas
  that is not empty, it does hand one over.
\<close>

theorem stitched_height_capped:
  assumes "0 \<le> devicePixelRatio dims" "\<forall>a b. a \<le> b \<longrightarrow> fl p a \<le> fl p b" "fl p 0 = 0"
  shows "MAX_PAGE_HEIGHT = 30000 \<and>
   (\<forall>s'. captureFullPage_ratio p capture_at dims s = Some (Inr s') \<longrightarrow>
      (\<exists>img. pendingCapture s' = Some img \<and>
         height img =
           to_unsigned (fl p (of_nat (min (scrollHeight dims) MAX_PAGE_HEIGHT) *
                                devicePixelRatio dims)) \<and>
         of_nat (height img) \<le> fl p (of_nat MAX_PAGE_HEIGHT * devicePixelRatio dims))) \<and>
   (0 < viewportHeight dims \<and> (\<forall>y. \<exists>img. capture_at y = Inr img) \<and>
    0 < to_unsigned (fl p (of_nat (viewportWidth dims) * devicePixelRatio dims)) \<and>
    0 < to_unsigned (fl p (of_nat (min (scrollHeight dims) MAX_PAGE_HEIGHT) *
                             devicePixelRatio dims)) \<longrightarrow>
      (\<exists>s'. captureFullPage_ratio p capture_at dims s = Some (Inr s')))"
proof (intro conjI allI impI)
  show "MAX_PAGE_HEIGHT = 30000" by (simp add: MAX_PAGE_HEIGHT_def)
next
  fix s'
  let ?d = "devicePixelRatio dims"
  let ?t = "fl p (of_nat (min (scrollHeight dims) MAX_PAGE_HEIGHT) * ?d)"
  assume "captureFullPage_ratio p capture_at dims s = Some (Inr s')"
  then obtain captures img where st: "stitchImages_ratio p captures dims = Inr img"
    and s': "s' = openEditor img s"
    by (auto simp add: captureFullPage_ratio_def split: option.splits sum.splits)
  have h: "height img = to_unsigned ?t" using st by (rule stitchImages_ratio_size)
  have "(of_nat (min (scrollHeight dims) MAX_PAGE_HEIGHT) :: rat) \<le> of_nat MAX_PAGE_HEIGHT"
    by simp
  then have "of_nat (min (scrollHeight dims) MAX_PAGE_HEIGHT) * ?d \<le> of_nat MAX_PAGE_HEIGHT * ?d"
    using assms(1) by (rule mult_right_mono)
  then have le: "?t \<le> fl p (of_nat MAX_PAGE_HEIGHT * ?d)" using assms(2) by blast
  have "(0 :: rat) \<le> of_nat (min (scrollHeight dims) MAX_PAGE_HEIGHT) * ?d"
    using assms(1) by simp
  then have "fl p 0 \<le> ?t" using assms(2) by blast
  then have "0 \<le> ?t" using assms(3) by simp
  then have "of_nat (to_unsigned ?t) \<le> ?t" by (rule to_unsigned_le)
  with le h have "(of_nat (height img) :: rat) \<le> fl p (of_nat MAX_PAGE_HEIGHT * ?d)" by simp
  with h s' show "\<exists>img. pendingCapture s' = Some img \<and> height img = to_unsigned ?t \<and>
         of_nat (height img) \<le> fl p (of_nat MAX_PAGE_HEIGHT * ?d)"
    by (simp add: openEditor_def)
next
  assume a: "0 < viewportHeight dims \<and> (\<forall>y. \<exists>img. capture_at y = Inr img) \<and>
    0 < to_unsigned (fl p (of_nat (viewportWidth dims) * devicePixelRatio dims)) \<and>
    0 < to_unsigned (fl p (of_nat (min (scrollHeight dims) MAX_PAGE_HEIGHT) *
                             devicePixelRatio dims))"
  then have "\<exists>f. \<forall>y. capture_at y = Inr (f y)" by (intro choice) simp
  then obtain f where f: "capture_at = (\<lambda>y. Inr (f y))" by auto
  from a obtain captures where c: "captureSegments capture_at dims = Some (Inr captures)"
    unfolding f by (simp add: captureSegments_all)
  from a obtain img where "stitchImages_ratio p captures dims = Inr img"
    using stitchImages_ratio_returns [of p dims captures] by blast
  with c show "\<exists>s'. captureFullPage_ratio p capture_at dims s = Some (Inr s')"
    by (simp add: captureFullPage_ratio_def)
qed

theorem stitched_height_capped_witness:
  "0 \<le> devicePixelRatio endless_page \<and>
   fl (exact_platform :: nat platform) (7 / 2) = 7 / 2 \<and>
   fl (exact_platform :: nat platform) 0 = 0 \<and>
   scrollHeight endless_page = 1000000 \<and> devicePixelRatio endless_page = 3 / 2 \<and>
   (\<exists>s' img. captureFullPage_ratio exact_platform (\<lambda>y. Inr empty_image) endless_page
        initial_background = Some (Inr s')
      \<and> pendingCapture s' = Some img \<and> height img = 45000)"
proof -
  let ?p = "exact_platform :: nat platform"
  have h: "0 \<le> devicePixelRatio endless_page"
    "\<forall>a b. a \<le> b \<longrightarrow> fl ?p a \<le> fl ?p b" "fl ?p 0 = 0"
    by (simp_all add: endless_page_def exact_platform_def)
  have g: "0 < viewportHeight endless_page \<and>
     (\<forall>y. \<exists>img. (\<lambda>y. Inr empty_image) y = (Inr img :: error + nat image)) \<and>
     0 < to_unsigned (fl ?p (of_nat (viewportWidth endless_page) * devicePixelRatio endless_page)) \<and>
     0 < to_unsigned (fl ?p (of_nat (min (scrollHeight endless_page) MAX_PAGE_HEIGHT) *
                             devicePixelRatio endless_page))"
    by (simp add: endless_page_def exact_platform_def to_unsigned_def MAX_PAGE_HEIGHT_def)
  note t = stitched_height_capped [OF h, of "\<lambda>y. Inr empty_image" initial_background]
  from t g obtain s' where s': "captureFullPage_ratio ?p (\<lambda>y. Inr empty_image) endless_page
      initial_background = Some (Inr s')" by blast
  with t obtain img where "pendingCapture s' = Some img"
    "height img = to_unsigned (fl ?p (of_nat (min (scrollHeight endless_page) MAX_PAGE_HEIGHT) *
                                devicePixelRatio endless_page))"
    by blast
  then have "pendingCapture s' = Some img \<and> height img = 45000"
    by (simp add: endless_page_def exact_platform_def to_unsigned_def MAX_PAGE_HEIGHT_def)
  moreover have "fl ?p (7 / 2) = 7 / 2" by (simp add: exact_platform_def)
  ultimately show ?thesis using s' h(1,3) by (auto simp add: endless_page_def)
qed

lemma whole_of_int [simp]: "whole (of_int z)"
  by (simp add: whole_def)

lemma whole_of_nat [simp]: "whole (of_nat n)"
  using whole_of_int [of "int n"] by simp

lemma whole_0 [simp]: "whole 0"
  using whole_of_int [of 0] by simp

lemma drawImage_ratio_whole:
  "drawImage_ratio p img (of_int sy) (of_int sh) (of_nat dy) canvas =
     drawImage_part img sy sh dy canvas"
  by (simp add: drawImage_ratio_def drawImage_part_def)

lemma drawImage_ratio_short:
  "drawImage_ratio p img 0 (of_nat (height img)) (of_nat dy) canvas = drawImage img dy canvas"
  using drawImage_ratio_whole [of p img 0 "int (height img)" dy canvas]
  by (simp add: drawImage_part_def drawImage_def height_def)

lemma draw_capture_ratio_integral:
  "draw_capture_ratio exact_platform (as_ratio dims) canvas c = draw_capture dims canvas c"
proof -
  let ?d = "devicePixelRatio dims"
  let ?dy = "offsetY c * ?d"
  let ?rem = "int (scrollHeight dims * ?d) - int ?dy"
  let ?sy = "int (height (imageData c)) - ?rem"
  have dy: "(of_nat (offsetY c) :: rat) * of_nat ?d = of_nat ?dy" by simp
  have rem: "(of_nat (scrollHeight dims) :: rat) * of_nat ?d - of_nat ?dy = of_int ?rem" by simp
  have sy: "(of_nat (height (imageData c)) :: rat) - of_int ?rem = of_int ?sy" by simp
  have pos: "((0 :: rat) < of_int ?sy) = (0 < ?sy)" by (rule of_int_0_less_iff)
  show ?thesis
    unfolding draw_capture_ratio_def draw_capture_def Let_def
    by (simp only: exact_platform_def as_ratio_def platform.simps dimensions.simps dy rem sy pos
        drawImage_ratio_whole drawImage_ratio_short)
qed

lemma draw_captures_ratio_integral:
  "draw_captures_ratio exact_platform (as_ratio dims) canvas cs = draw_captures dims canvas cs"
  by (induction cs arbitrary: canvas) (simp_all add: draw_capture_ratio_integral)

text \<open>
  For an integral ratio and exact arithmetic the stitcher above is the pixel-exact one,
  followed by the encoder's check for an empty canvas.
\<close>

lemma stitchImages_ratio_integral:
  "stitchImages_ratio exact_platform captures (as_ratio dims) =
     (if width (stitchImages captures dims) = 0 \<or> height (stitchImages captures dims) = 0
      then Inl IndexSizeError else Inr (stitchImages captures dims))"
proof -
  have w: "to_unsigned (of_nat (viewportWidth dims) * of_nat (devicePixelRatio dims)) =
      viewportWidth dims * devicePixelRatio dims"
    by (simp add: to_unsigned_def flip: of_nat_mult)
  have h: "to_unsigned (of_nat (min (scrollHeight dims) MAX_PAGE_HEIGHT) * of_nat (devicePixelRatio dims)) =
      min (scrollHeight dims) MAX_PAGE_HEIGHT * devicePixelRatio dims"
    by (simp add: to_unsigned_def flip: of_nat_mult)
  have eq: "draw_captures_ratio exact_platform (as_ratio dims)
      (OffscreenCanvas
         (to_unsigned (fl exact_platform (of_nat (viewportWidth (as_ratio dims)) *
                         devicePixelRatio (as_ratio dims))))
         (to_unsigned (fl exact_platform (of_nat (min (scrollHeight (as_ratio dims)) MAX_PAGE_HEIGHT) *
                                     devicePixelRatio (as_ratio dims))))) captures
      = stitchImages captures dims"
    unfolding stitchImages_def draw_captures_ratio_integral [symmetric]
    by (simp add: exact_platform_def as_ratio_def w h)
  show ?thesis unfolding stitchImages_ratio_def Let_def eq by (rule refl)
qed
















end
